theory Spec2Isabelle
  imports Main
begin

section \<open>The OLX scraper (\<^verbatim>\<open>app.py\<close>, class \<^verbatim>\<open>StealthyScraper\<close>)\<close>

text \<open>
  A shallow embedding of the fetch stage (\<^verbatim>\<open>fetch_page\<close>), the locator
  (\<^verbatim>\<open>find_listings\<close>), the field extractor (\<^verbatim>\<open>parse_listing\<close>) and the page
  loop (\<^verbatim>\<open>scrape_search_results\<close>).

  Python strings are \<open>string\<close> (lists of bytes; a character outside ASCII is its UTF-8
  encoding), Python integers are \<open>int\<close>. Logging, the random request headers and the
  debug copy of each page written to disk are not part of the model: they do not
  influence any value the four functions return. The time slept and the requests made
  are kept as a trace of events, passed through the functions and returned with their
  results. A random delay is recorded by the range it is drawn from.
\<close>

subsection \<open>String operations of Python used by the source\<close>

text \<open>\<^verbatim>\<open>s.startswith(p)\<close>\<close>

fun startswith :: "string \<Rightarrow> string \<Rightarrow> bool" where
  "startswith s [] = True"
| "startswith [] (p # ps) = False"
| "startswith (c # s) (p # ps) = (c = p \<and> startswith s ps)"

text \<open>\<^verbatim>\<open>p in s\<close>\<close>

fun contains :: "string \<Rightarrow> string \<Rightarrow> bool" where
  "contains [] p = (p = [])"
| "contains (c # s) p = (startswith (c # s) p \<or> contains s p)"

text \<open>
  \<^verbatim>\<open>s.lower()\<close> on the ASCII letters; bytes of other characters are left as they are.
\<close>

definition lower_char :: "char \<Rightarrow> char" where
  "lower_char c =
     (case map_of (zip ''ABCDEFGHIJKLMNOPQRSTUVWXYZ'' ''abcdefghijklmnopqrstuvwxyz'') c of
        None \<Rightarrow> c
      | Some d \<Rightarrow> d)"

definition lower :: "string \<Rightarrow> string" where
  "lower s = map lower_char s"

text \<open>
  \<^verbatim>\<open>s.strip()\<close>: leading and trailing whitespace removed (the ASCII whitespace
  characters: space, tab, line feed, vertical tab, form feed, carriage return and the
  four separators \<open>0x1C\<close> to \<open>0x1F\<close>).
\<close>

definition isspace :: "char \<Rightarrow> bool" where
  "isspace c = (c \<in> set [CHR '' '', CHR 0x09, CHR 0x0A, CHR 0x0B, CHR 0x0C, CHR 0x0D,
                          CHR 0x1C, CHR 0x1D, CHR 0x1E, CHR 0x1F])"

definition strip :: "string \<Rightarrow> string" where
  "strip s = rev (dropWhile isspace (rev (dropWhile isspace s)))"

text \<open>\<^verbatim>\<open>str(n)\<close> for an integer: its decimal digits.\<close>

definition digit_char :: "nat \<Rightarrow> char" where
  "digit_char d = ''0123456789'' ! d"

function str_nat :: "nat \<Rightarrow> string" where
  "str_nat n = (if n < 10 then [digit_char n] else str_nat (n div 10) @ [digit_char (n mod 10)])"
  by pat_completeness auto
termination
  by (relation "measure (\<lambda>n. n)") auto

declare str_nat.simps [simp del]

definition str_int :: "int \<Rightarrow> string" where
  "str_int i = (if i < 0 then CHR ''-'' # str_nat (nat (- i)) else str_nat (nat i))"

subsection \<open>The document tree of BeautifulSoup\<close>

text \<open>
  A parsed page is a tree of tags (\<open>Element\<close>: name, attribute dictionary, children) and
  strings (\<open>Text\<close>, a \<^verbatim>\<open>NavigableString\<close>). The attribute dictionary is an
  association list read with \<open>map_of\<close>; an attribute value is the text written in the
  page, and the \<^verbatim>\<open>class\<close> attribute is read as its whitespace-separated tokens.
\<close>

datatype node =
    Text string
  | Element (tag: string) (attrs: "(string \<times> string) list") (children: "node list")

text \<open>All nodes below a node, in document order (the node itself is not among them).\<close>

fun descendants :: "node \<Rightarrow> node list" where
  "descendants (Text s) = []"
| "descendants (Element t a cs) = concat (map (\<lambda>c. c # descendants c) cs)"

text \<open>\<^verbatim>\<open>elem.text\<close>: all strings below the node, concatenated.\<close>

fun get_text :: "node \<Rightarrow> string" where
  "get_text (Text s) = s"
| "get_text (Element t a cs) = concat (map get_text cs)"

definition is_tag :: "node \<Rightarrow> bool" where
  "is_tag n = (case n of Text s \<Rightarrow> False | Element t a cs \<Rightarrow> True)"

text \<open>\<^verbatim>\<open>name in elem.attrs\<close> and \<^verbatim>\<open>elem[name]\<close>\<close>

definition attr :: "node \<Rightarrow> string \<Rightarrow> string option" where
  "attr n name = (case n of Text s \<Rightarrow> None | Element t a cs \<Rightarrow> map_of a name)"

text \<open>The tokens of a \<^verbatim>\<open>class\<close> attribute value.\<close>

fun split_ws :: "string \<Rightarrow> string \<Rightarrow> string list" where
  "split_ws acc [] = (if acc = [] then [] else [acc])"
| "split_ws acc (c # s) =
     (if isspace c then (if acc = [] then split_ws [] s else acc # split_ws [] s)
      else split_ws (acc @ [c]) s)"

definition classes :: "node \<Rightarrow> string list" where
  "classes n = (case attr n ''class'' of None \<Rightarrow> [] | Some v \<Rightarrow> split_ws [] v)"

text \<open>
  The CSS selectors the source uses have three shapes: \<^verbatim>\<open>tag.class\<close>,
  \<^verbatim>\<open>tag[name="value"]\<close> and \<^verbatim>\<open>tag\<close>.
\<close>

datatype selector =
    Tag_class string string
  | Tag_attr string string string
  | Tag_only string

fun matches :: "selector \<Rightarrow> node \<Rightarrow> bool" where
  "matches sel (Text s) = False"
| "matches (Tag_class t c) (Element t' a cs) = (t' = t \<and> c \<in> set (classes (Element t' a cs)))"
| "matches (Tag_attr t k v) (Element t' a cs) = (t' = t \<and> map_of a k = Some v)"
| "matches (Tag_only t) (Element t' a cs) = (t' = t)"

text \<open>\<^verbatim>\<open>elem.select(selector)\<close> and \<^verbatim>\<open>elem.select_one(selector)\<close>\<close>

definition select :: "selector \<Rightarrow> node \<Rightarrow> node list" where
  "select sel root = filter (matches sel) (descendants root)"

definition select_one :: "selector \<Rightarrow> node \<Rightarrow> node option" where
  "select_one sel root = find (matches sel) (descendants root)"

text \<open>\<^verbatim>\<open>elem.find(name)\<close>: the first tag below with that name.\<close>

definition find_tag :: "string \<Rightarrow> node \<Rightarrow> node option" where
  "find_tag name root = find (\<lambda>n. is_tag n \<and> tag n = name) (descendants root)"

subsection \<open>\<^verbatim>\<open>parse_listing\<close>\<close>

record listing_record =
  title :: string
  price :: string
  location :: string
  date_posted :: string
  link :: string
  image_url :: string

definition price_selectors :: "selector list" where
  "price_selectors = [Tag_class ''span'' ''_2Ks63'', Tag_class ''span'' ''olx-price-new'',
     Tag_attr ''span'' ''data-aut-id'' ''itemPrice'', Tag_class ''span'' ''price'',
     Tag_class ''span'' ''text-price'']"

definition title_selectors :: "selector list" where
  "title_selectors = [Tag_class ''span'' ''_2tW1I'', Tag_class ''span'' ''olx-text-color'',
     Tag_attr ''span'' ''data-aut-id'' ''itemTitle'', Tag_only ''h2'',
     Tag_class ''div'' ''title'']"

definition loc_selectors :: "selector list" where
  "loc_selectors = [Tag_class ''span'' ''tjgMj'', Tag_class ''span'' ''olx-location'',
     Tag_attr ''span'' ''data-aut-id'' ''item-location'', Tag_class ''span'' ''location'']"

definition date_selectors :: "selector list" where
  "date_selectors = [Tag_class ''span'' ''zLvFQ'', Tag_class ''span'' ''olx-date'',
     Tag_attr ''span'' ''data-aut-id'' ''item-date'', Tag_class ''span'' ''date'']"

text \<open>
  The loop written four times in the source, once per text field:
  \<^verbatim>\<open>
  value = "N/A"
  for selector in selectors:
      elem = listing.select_one(selector)
      if elem:
          value = elem.text.strip()
          break
  \<close>
  A tag is true in a condition whatever its contents, so \<^verbatim>\<open>if elem\<close> asks only
  whether the selector matched.
\<close>

fun first_text :: "selector list \<Rightarrow> node \<Rightarrow> string" where
  "first_text [] listing = ''N/A''"
| "first_text (selector # rest) listing =
     (case select_one selector listing of
        Some elem \<Rightarrow> strip (get_text elem)
      | None \<Rightarrow> first_text rest listing)"

text \<open>
  \<^verbatim>\<open>
  link = "N/A"
  link_elem = listing.find('a')
  if link_elem and 'href' in link_elem.attrs:
      link = link_elem['href']
      if not link.startswith('http'):
          link = "https://www.olx.in" + link
  \<close>
\<close>

definition extract_link :: "node \<Rightarrow> string" where
  "extract_link listing =
     (case find_tag ''a'' listing of
        None \<Rightarrow> ''N/A''
      | Some link_elem \<Rightarrow>
          (case attr link_elem ''href'' of
             None \<Rightarrow> ''N/A''
           | Some href \<Rightarrow>
               if \<not> startswith href ''http'' then ''https://www.olx.in'' @ href else href))"

text \<open>
  \<^verbatim>\<open>
  for attr in ['src', 'data-src', 'srcset']:
      if attr in img_elem.attrs:
          image_url = img_elem[attr]
          break
  \<close>
\<close>

fun first_attr :: "string list \<Rightarrow> node \<Rightarrow> string" where
  "first_attr [] img_elem = ''N/A''"
| "first_attr (a # rest) img_elem =
     (case attr img_elem a of Some v \<Rightarrow> v | None \<Rightarrow> first_attr rest img_elem)"

definition extract_image :: "node \<Rightarrow> string" where
  "extract_image listing =
     (case find_tag ''img'' listing of
        None \<Rightarrow> ''N/A''
      | Some img_elem \<Rightarrow> first_attr [''src'', ''data-src'', ''srcset''] img_elem)"

text \<open>
  The whole body is inside \<^verbatim>\<open>try\<close>, and any exception makes the function return
  \<^verbatim>\<open>None\<close>. A string node has no \<^verbatim>\<open>select_one\<close>: the first lookup raises
  \<^verbatim>\<open>AttributeError\<close>, which is caught. On a tag no operation of the body raises.
\<close>

fun parse_listing :: "node \<Rightarrow> listing_record option" where
  "parse_listing (Text s) = None"
| "parse_listing (Element t a cs) =
     (let listing = Element t a cs;
          price = first_text price_selectors listing;
          title = first_text title_selectors listing;
          location = first_text loc_selectors listing;
          date_posted = first_text date_selectors listing;
          link = extract_link listing;
          image_url = extract_image listing
      in Some \<lparr>title = title, price = price, location = location,
                date_posted = date_posted, link = link, image_url = image_url\<rparr>)"

subsection \<open>\<^verbatim>\<open>fetch_page\<close>\<close>

text \<open>
  What one \<^verbatim>\<open>session.get\<close> gives: a response with its status code and body, or a
  \<^verbatim>\<open>RequestException\<close>. The network is a function from the URL and the number of
  requests this call of \<^verbatim>\<open>fetch_page\<close> has already made for it to the outcome
  of the next one.
\<close>

datatype outcome = Response (status_code: int) (response_text: string) | RequestException

type_synonym network = "string \<Rightarrow> nat \<Rightarrow> outcome"

text \<open>
  The effects a run leaves behind, in order: a sleep of a fixed number of seconds, a
  sleep of \<^verbatim>\<open>random.uniform(lo, hi)\<close> seconds, an HTTP GET of a URL.
\<close>

datatype event = Sleep_fixed int | Sleep_uniform int int | Http_get string

type_synonym world = "event list"

definition retry_delay :: int where
  "retry_delay = 30"

text \<open>
  The \<^verbatim>\<open>while retries < max_retries\<close> loop. \<open>retries\<close> counts from 0, so it is
  also the number of requests made so far.
\<close>

function fetch_loop :: "network \<Rightarrow> string \<Rightarrow> int \<Rightarrow> nat \<Rightarrow> world \<Rightarrow> string option \<times> world" where
  "fetch_loop net url max_retries retries w =
     (if int retries < max_retries then
        (let w1 = w @ [Sleep_uniform 2 5, Http_get url] in
         case net url retries of
           RequestException \<Rightarrow>
             (if int (retries + 1) < max_retries
              then fetch_loop net url max_retries (retries + 1)
                     (w1 @ [Sleep_fixed (retry_delay * int (retries + 1))])
              else (None, w1))
         | Response status body \<Rightarrow>
             (if contains (lower body) ''captcha''
                 \<or> contains (lower body) ''detected unusual traffic''
              then fetch_loop net url max_retries (retries + 1) (w1 @ [Sleep_fixed retry_delay])
              else if status \<noteq> 200
              then fetch_loop net url max_retries (retries + 1) (w1 @ [Sleep_fixed retry_delay])
              else (Some body, w1)))
      else (None, w))"
  by pat_completeness auto
termination
  by (relation "measure (\<lambda>(net, url, max_retries, retries, w). nat (max_retries - int retries))")
     auto

declare fetch_loop.simps [simp del]

definition fetch_page :: "network \<Rightarrow> string \<Rightarrow> int \<Rightarrow> world \<Rightarrow> string option \<times> world" where
  "fetch_page net url max_retries w = fetch_loop net url max_retries 0 w"

subsection \<open>\<^verbatim>\<open>find_listings\<close>\<close>

definition listing_selectors :: "selector list" where
  "listing_selectors = [Tag_class ''li'' ''EIR5N'', Tag_attr ''li'' ''data-aut-id'' ''itemBox'',
     Tag_attr ''div'' ''data-aut-id'' ''itemCard'', Tag_class ''div'' ''IKo3_'',
     Tag_class ''li'' ''listing'']"

text \<open>
  \<^verbatim>\<open>
  for selector in listing_selectors:
      listings = soup.select(selector)
      if listings:
          return listings
  \<close>
  \<open>None\<close> stands for the loop ending without a return.
\<close>

fun first_selection :: "selector list \<Rightarrow> node \<Rightarrow> node list option" where
  "first_selection [] soup = None"
| "first_selection (selector # rest) soup =
     (let listings = select selector soup in
      if listings \<noteq> [] then Some listings else first_selection rest soup)"

text \<open>\<^verbatim>\<open>soup.find_all(['div', 'li'], class_=True)\<close>\<close>

definition potential_listings :: "node \<Rightarrow> node list" where
  "potential_listings soup =
     filter (\<lambda>n. is_tag n \<and> tag n \<in> set [''div'', ''li''] \<and> attr n ''class'' \<noteq> None)
       (descendants soup)"

text \<open>\<^verbatim>\<open>bool(item.find(['h2', 'h3', 'strong', 'span'], class_=True))\<close>\<close>

definition has_heading :: "node \<Rightarrow> bool" where
  "has_heading item =
     (find (\<lambda>n. is_tag n \<and> tag n \<in> set [''h2'', ''h3'', ''strong'', ''span'']
                  \<and> attr n ''class'' \<noteq> None) (descendants item) \<noteq> None)"

text \<open>The rupee sign U+20B9 in UTF-8.\<close>

definition rupee :: string where
  "rupee = [CHR 0xE2, CHR 0x82, CHR 0xB9]"

text \<open>The \<^verbatim>\<open>lambda t: rupee in t if t else False\<close> applied to a string node.\<close>

definition price_text :: "node \<Rightarrow> bool" where
  "price_text n = (case n of Text t \<Rightarrow> (if t \<noteq> [] then contains t rupee else False)
                   | Element t a cs \<Rightarrow> False)"

definition has_price :: "node \<Rightarrow> bool" where
  "has_price item = (find price_text (descendants item) \<noteq> None)"

text \<open>\<^verbatim>\<open>bool(item.find('a', href=True))\<close>\<close>

definition has_link :: "node \<Rightarrow> bool" where
  "has_link item =
     (find (\<lambda>n. is_tag n \<and> tag n = ''a'' \<and> attr n ''href'' \<noteq> None) (descendants item) \<noteq> None)"

text \<open>
  \<open>parser\<close> is \<^verbatim>\<open>BeautifulSoup(html_content, 'html.parser')\<close>; it returns the
  document node, whose children are the top-level nodes of the page.
\<close>

definition find_listings :: "(string \<Rightarrow> node) \<Rightarrow> string option \<Rightarrow> node list" where
  "find_listings parser html_content =
     (case html_content of
        None \<Rightarrow> []
      | Some html \<Rightarrow>
          if html = [] then []
          else
            (let soup = parser html in
             case first_selection listing_selectors soup of
               Some listings \<Rightarrow> listings
             | None \<Rightarrow>
                 (let filtered_listings =
                        filter (\<lambda>item. has_heading item \<and> (has_price item \<or> has_link item))
                          (potential_listings soup)
                  in if filtered_listings \<noteq> [] then filtered_listings else [])))"

subsection \<open>\<^verbatim>\<open>scrape_search_results\<close>\<close>

definition base_url :: string where
  "base_url = ''https://www.olx.in/items/q-car-cover''"

definition page_url :: "int \<Rightarrow> string" where
  "page_url current_page =
     (if current_page = 1 then base_url else base_url @ ''?page='' @ str_int current_page)"

text \<open>
  \<^verbatim>\<open>
  page_results = []
  for listing in listings:
      result = self.parse_listing(listing)
      if result:
          page_results.append(result)
  \<close>
\<close>

fun page_results :: "node list \<Rightarrow> listing_record list" where
  "page_results [] = []"
| "page_results (listing # rest) =
     (case parse_listing listing of
        None \<Rightarrow> page_results rest
      | Some result \<Rightarrow> result # page_results rest)"

text \<open>
  The \<^verbatim>\<open>while current_page <= max_pages\<close> loop. \<^verbatim>\<open>fetch_page\<close> is called with
  its default \<^verbatim>\<open>max_retries=3\<close>; \<^verbatim>\<open>not html_content\<close> holds for \<^verbatim>\<open>None\<close> and
  for the empty string.
\<close>

function scrape_loop ::
  "network \<Rightarrow> (string \<Rightarrow> node) \<Rightarrow> int \<Rightarrow> int \<Rightarrow> listing_record list \<Rightarrow> world
     \<Rightarrow> listing_record list \<times> world" where
  "scrape_loop net parser max_pages current_page all_results w =
     (if current_page \<le> max_pages then
        (case fetch_page net (page_url current_page) 3 w of
           (html_content, w1) \<Rightarrow>
             if html_content = None \<or> html_content = Some []
             then scrape_loop net parser max_pages (current_page + 1) all_results w1
             else
               (let listings = find_listings parser html_content;
                    w2 = (if current_page + 1 \<le> max_pages
                          then w1 @ [Sleep_uniform 10 20] else w1)
                in scrape_loop net parser max_pages (current_page + 1)
                     (all_results @ page_results listings) w2))
      else (all_results, w))"
  by pat_completeness auto
termination
  by (relation "measure (\<lambda>(net, parser, max_pages, current_page, all_results, w).
                  nat (max_pages + 1 - current_page))") auto

declare scrape_loop.simps [simp del]

definition scrape_search_results ::
  "network \<Rightarrow> (string \<Rightarrow> node) \<Rightarrow> int \<Rightarrow> world \<Rightarrow> listing_record list \<times> world" where
  "scrape_search_results net parser max_pages w = scrape_loop net parser max_pages 1 [] w"

subsection \<open>Notions used to state the properties\<close>

text \<open>A network that gives the same outcome to every request.\<close>

definition always :: "outcome \<Rightarrow> network" where
  "always out url k = out"

text \<open>A parser that gives the same document for every page.\<close>

definition fixed_page :: "node \<Rightarrow> string \<Rightarrow> node" where
  "fixed_page doc html = doc"

text \<open>The URLs requested in a run, one entry per HTTP GET, in order.\<close>

fun get_urls :: "world \<Rightarrow> string list" where
  "get_urls [] = []"
| "get_urls (Http_get u # w) = u # get_urls w"
| "get_urls (Sleep_fixed d # w) = get_urls w"
| "get_urls (Sleep_uniform lo hi # w) = get_urls w"

text \<open>The fixed sleeps of a run (the cooldowns after failed attempts), in order.\<close>

fun cooldowns :: "world \<Rightarrow> int list" where
  "cooldowns [] = []"
| "cooldowns (Sleep_fixed d # w) = d # cooldowns w"
| "cooldowns (Http_get u # w) = cooldowns w"
| "cooldowns (Sleep_uniform lo hi # w) = cooldowns w"

text \<open>The four text fields, their selector lists and their place in the record.\<close>

datatype text_field = Title | Price | Location | Date_posted

fun cascade :: "text_field \<Rightarrow> selector list" where
  "cascade Title = title_selectors"
| "cascade Price = price_selectors"
| "cascade Location = loc_selectors"
| "cascade Date_posted = date_selectors"

fun field_value :: "text_field \<Rightarrow> listing_record \<Rightarrow> string" where
  "field_value Title r = title r"
| "field_value Price r = price r"
| "field_value Location r = location r"
| "field_value Date_posted r = date_posted r"

text \<open>
  What \<^verbatim>\<open>fetch_page\<close> with its default three retries returns for a page, the
  effects of that call, and whether the page loop goes on to process the page.
\<close>

definition page_body :: "network \<Rightarrow> int \<Rightarrow> string option" where
  "page_body net p = fst (fetch_page net (page_url p) 3 [])"

definition page_events :: "network \<Rightarrow> int \<Rightarrow> world" where
  "page_events net p = snd (fetch_page net (page_url p) 3 [])"

definition page_fetched :: "network \<Rightarrow> int \<Rightarrow> bool" where
  "page_fetched net p = (page_body net p \<noteq> None \<and> page_body net p \<noteq> Some [])"

subsection \<open>Sample inputs\<close>

text \<open>A listing with a price, a relative link and a lazily loaded image.\<close>

definition sample_listing :: node where
  "sample_listing =
     Element ''li'' [(''class'', ''EIR5N'')]
       [Element ''span'' [(''class'', ''price'')] [Text '' Rs 5 ''],
        Element ''a'' [(''href'', ''/item/123'')] [Text ''Car cover''],
        Element ''img'' [(''data-src'', ''x.png'')] []]"

definition sample_record :: listing_record where
  "sample_record =
     \<lparr>title = ''N/A'', price = ''Rs 5'', location = ''N/A'', date_posted = ''N/A'',
      link = ''https://www.olx.in/item/123'', image_url = ''x.png''\<rparr>"

text \<open>
  A listing whose price is marked up both in the current way (\<^verbatim>\<open>span._2Ks63\<close>) and
  in an older way (\<^verbatim>\<open>span.price\<close>); the older node comes first in the page.
\<close>

definition legacy_price :: node where
  "legacy_price = Element ''span'' [(''class'', ''price'')] [Text ''old 100'']"

definition current_price :: node where
  "current_price = Element ''span'' [(''class'', ''big _2Ks63'')] [Text '' new 200 '']"

definition both_prices :: node where
  "both_prices = Element ''li'' [(''class'', ''EIR5N'')] [legacy_price, current_price]"

text \<open>A listing with an absolute link, and one without any anchor.\<close>

definition absolute_link :: node where
  "absolute_link =
     Element ''li'' [] [Element ''a'' [(''href'', ''https://www.olx.in/item/9'')] []]"

definition no_anchor :: node where
  "no_anchor = Element ''li'' [] [Element ''span'' [] [Text ''Car cover'']]"




text \<open>A page with two listings in the current markup.\<close>

definition two_listings :: node where
  "two_listings = Element ''[document]'' [] [sample_listing, both_prices]"

text \<open>The number of requests \<^verbatim>\<open>fetch_page\<close> makes for a page.\<close>

definition attempts :: "network \<Rightarrow> int \<Rightarrow> nat" where
  "attempts net p = length (get_urls (page_events net p))"

text \<open>
  A network on which the first page always answers 503 and every other page answers
  200, and the record of the listing with two prices.
\<close>

definition first_page_down :: network where
  "first_page_down url k =
     (if url = base_url then Response 503 ''busy'' else Response 200 ''<html>'')"

definition both_record :: listing_record where
  "both_record =
     \<lparr>title = ''N/A'', price = ''new 200'', location = ''N/A'', date_posted = ''N/A'',
      link = ''N/A'', image_url = ''N/A''\<rparr>"

section \<open>Properties\<close>

subsection \<open>The retry loop, one step at a time\<close>

lemma fetch_loop_stop: "\<not> int r < m \<Longrightarrow> fetch_loop net url m r w = (None, w)"
  by (subst fetch_loop.simps) simp

lemma fetch_loop_retry_step:
  assumes "int r < m" and "net url r = Response s b"
    and "contains (lower b) ''captcha'' \<or> contains (lower b) ''detected unusual traffic'' \<or> s \<noteq> 200"
  shows "fetch_loop net url m r w =
         fetch_loop net url m (Suc r) (w @ [Sleep_uniform 2 5, Http_get url, Sleep_fixed retry_delay])"
  using assms by (subst fetch_loop.simps) (auto simp: Let_def)

lemma fetch_loop_error_step:
  assumes "int r < m" and "net url r = RequestException"
  shows "fetch_loop net url m r w =
         (if int (Suc r) < m
          then fetch_loop net url m (Suc r)
                 (w @ [Sleep_uniform 2 5, Http_get url, Sleep_fixed (retry_delay * int (Suc r))])
          else (None, w @ [Sleep_uniform 2 5, Http_get url]))"
  using assms by (subst fetch_loop.simps) (simp add: Let_def)

lemma fetch_loop_success:
  assumes "int r < m" and "net url r = Response 200 b"
    and "\<not> contains (lower b) ''captcha''" and "\<not> contains (lower b) ''detected unusual traffic''"
  shows "fetch_loop net url m r w = (Some b, w @ [Sleep_uniform 2 5, Http_get url])"
  using assms by (subst fetch_loop.simps) (simp add: Let_def)

lemma fetch_loop_all_retry:
  assumes "\<And>k. \<exists>s b. net url k = Response s b \<and>
             (contains (lower b) ''captcha'' \<or> contains (lower b) ''detected unusual traffic'' \<or> s \<noteq> 200)"
  shows "fetch_loop net url m r w =
         (None, w @ concat (replicate (nat (m - int r)) [Sleep_uniform 2 5, Http_get url, Sleep_fixed retry_delay]))"
proof (induction "nat (m - int r)" arbitrary: r w)
  case 0
  then show ?case by (simp add: fetch_loop_stop)
next
  case (Suc n)
  then have lt: "int r < m" and n: "n = nat (m - int (Suc r))" by auto
  obtain s b where sb: "net url r = Response s b"
    "contains (lower b) ''captcha'' \<or> contains (lower b) ''detected unusual traffic'' \<or> s \<noteq> 200"
    using assms by blast
  have eq: "nat (m - int r) = Suc (nat (m - int (Suc r)))" using lt by simp
  have step: "fetch_loop net url m r w =
         fetch_loop net url m (Suc r) (w @ [Sleep_uniform 2 5, Http_get url, Sleep_fixed retry_delay])"
    using lt sb by (rule fetch_loop_retry_step)
  show ?case
    unfolding step Suc.hyps(1)[OF n] eq by simp
qed

lemma fetch_loop_all_error:
  assumes err: "\<And>k. net url k = RequestException" and "int r < m"
  shows "fetch_loop net url m r w =
         (None, w @ concat (map (\<lambda>k. [Sleep_uniform 2 5, Http_get url, Sleep_fixed (retry_delay * int k)])
                        [Suc r..<nat m]) @ [Sleep_uniform 2 5, Http_get url])"
  using assms(2)
proof (induction "nat (m - int (Suc r))" arbitrary: r w)
  case 0
  then have no: "\<not> int (Suc r) < m" by simp
  then have "[Suc r..<nat m] = []" by simp
  then show ?case
    using no fetch_loop_error_step[of r m net url w, OF "0.prems" err] by simp
next
  case (Suc n)
  then have lt: "int (Suc r) < m" and n: "n = nat (m - int (Suc (Suc r)))" by auto
  have up: "[Suc r..<nat m] = Suc r # [Suc (Suc r)..<nat m]" using lt by (simp add: upt_conv_Cons)
  have step: "fetch_loop net url m r w = fetch_loop net url m (Suc r)
                 (w @ [Sleep_uniform 2 5, Http_get url, Sleep_fixed (retry_delay * int (Suc r))])"
    using lt fetch_loop_error_step[of r m net url w, OF Suc.prems err] by simp
  show ?case
    unfolding step Suc.hyps(1)[OF n lt] up by simp
qed

lemma fetch_loop_world_step:
  assumes a: "\<And>v. fetch_loop net url m r v = fetch_loop net url m r' (v @ e)"
    and IH: "\<And>v. fetch_loop net url m r' v =
               (fst (fetch_loop net url m r' []), v @ snd (fetch_loop net url m r' []))"
  shows "fetch_loop net url m r w =
         (fst (fetch_loop net url m r []), w @ snd (fetch_loop net url m r []))"
proof -
  have 1: "fetch_loop net url m r w =
           (fst (fetch_loop net url m r' []), (w @ e) @ snd (fetch_loop net url m r' []))"
    using a[of w] IH[of "w @ e"] by simp
  have 2: "fetch_loop net url m r [] =
           (fst (fetch_loop net url m r' []), e @ snd (fetch_loop net url m r' []))"
    using a[of "[]"] IH[of e] by simp
  show ?thesis by (simp add: 1 2)
qed

lemma fetch_loop_world:
  "fetch_loop net url m r w = (fst (fetch_loop net url m r []), w @ snd (fetch_loop net url m r []))"
proof (induction "nat (m - int r)" arbitrary: r w)
  case 0
  then show ?case by (simp add: fetch_loop_stop)
next
  case (Suc n)
  then have lt: "int r < m" and n: "n = nat (m - int (Suc r))" by auto
  note IH = Suc.hyps(1)[OF n]
  show ?case
  proof (cases "net url r")
    case RequestException
    show ?thesis
    proof (cases "int (Suc r) < m")
      case True
      have a: "fetch_loop net url m r v = fetch_loop net url m (Suc r)
                 (v @ [Sleep_uniform 2 5, Http_get url, Sleep_fixed (retry_delay * int (Suc r))])" for v
        using True fetch_loop_error_step[of r m net url v, OF lt RequestException] by simp
      show ?thesis by (rule fetch_loop_world_step[OF a IH])
    next
      case False
      then show ?thesis
        using fetch_loop_error_step[of r m net url, OF lt RequestException] by simp
    qed
  next
    case (Response s b)
    show ?thesis
    proof (cases "contains (lower b) ''captcha'' \<or> contains (lower b) ''detected unusual traffic'' \<or> s \<noteq> 200")
      case True
      have a: "fetch_loop net url m r v = fetch_loop net url m (Suc r)
                 (v @ [Sleep_uniform 2 5, Http_get url, Sleep_fixed retry_delay])" for v
        using lt Response True by (rule fetch_loop_retry_step)
      show ?thesis by (rule fetch_loop_world_step[OF a IH])
    next
      case False
      then have "fetch_loop net url m r v = (Some b, v @ [Sleep_uniform 2 5, Http_get url])" for v
        using fetch_loop_success[of r m net url b v] lt Response by simp
      then show ?thesis by simp
    qed
  qed
qed

subsection \<open>Reading a trace\<close>

lemma get_urls_append: "get_urls (w @ v) = get_urls w @ get_urls v"
  by (induction w rule: get_urls.induct) simp_all

lemma cooldowns_append: "cooldowns (w @ v) = cooldowns w @ cooldowns v"
  by (induction w rule: cooldowns.induct) simp_all

lemma get_urls_attempts:
  "get_urls (concat (replicate n [Sleep_uniform lo hi, Http_get url, Sleep_fixed d])) = replicate n url"
  by (induction n) simp_all

lemma get_urls_backoff:
  "get_urls (concat (map (\<lambda>k. [Sleep_uniform lo hi, Http_get url, Sleep_fixed (f k)]) ks))
     = replicate (length ks) url"
  by (induction ks) simp_all

lemma cooldowns_backoff:
  "cooldowns (concat (map (\<lambda>k. [Sleep_uniform lo hi, Http_get url, Sleep_fixed (f k)]) ks)) = map f ks"
  by (induction ks) simp_all

lemma backoff_increasing: "sorted_wrt (<) (map (\<lambda>k. retry_delay * int k) [i..<j])"
  by (simp add: sorted_wrt_map retry_delay_def)

subsection \<open>\<^verbatim>\<open>fetch_page\<close>: the retry bound\<close>

text \<open>
  Claim C10. Called with \<^verbatim>\<open>max_retries <= 0\<close>, \<^verbatim>\<open>fetch_page\<close> returns
  \<^verbatim>\<open>None\<close> at once: the loop body never runs, so the world is left as it was (no
  request is made and nothing is slept).
\<close>

theorem fetch_page_no_retries:
  "max_retries \<le> 0 \<Longrightarrow> fetch_page net url max_retries w = (None, w)"
  by (simp add: fetch_page_def fetch_loop_stop)

theorem fetch_page_no_retries_witness:
  "(0::int) \<le> 0 \<and> fetch_page (always (Response 200 ''ok'')) base_url 0 [] = (None, [])
   \<and> (-2::int) \<le> 0 \<and> fetch_page (always (Response 200 ''ok'')) base_url (-2) [] = (None, [])"
  using fetch_page_no_retries[of 0 "always (Response 200 ''ok'')" base_url "[]"]
        fetch_page_no_retries[of "-2" "always (Response 200 ''ok'')" base_url "[]"]
  by simp

text \<open>
  Claim C2. For \<^verbatim>\<open>max_retries >= 1\<close>: when every response has a status other than
  200, \<^verbatim>\<open>fetch_page\<close> returns \<^verbatim>\<open>None\<close> after exactly \<^verbatim>\<open>max_retries\<close>
  requests to the URL. When every request raises a \<^verbatim>\<open>RequestException\<close>, it also
  returns \<^verbatim>\<open>None\<close> after exactly \<^verbatim>\<open>max_retries\<close> requests, and the cooldown
  slept after the \<open>k\<close>-th failed request, before request \<open>k + 1\<close>, is
  \<^verbatim>\<open>retry_delay * k\<close>: the cooldowns are \<open>30, 60, ...\<close>, strictly increasing, and
  none follows the last request.
\<close>

theorem fetch_page_exhausts_retries:
  assumes "1 \<le> max_retries"
  shows "((\<forall>k. \<exists>s b. net url k = Response s b \<and> s \<noteq> 200) \<longrightarrow>
            fst (fetch_page net url max_retries w) = None \<and>
            get_urls (snd (fetch_page net url max_retries w))
              = get_urls w @ replicate (nat max_retries) url)
       \<and> ((\<forall>k. net url k = RequestException) \<longrightarrow>
            fetch_page net url max_retries w =
              (None, w @ concat (map (\<lambda>k. [Sleep_uniform 2 5, Http_get url,
                                            Sleep_fixed (retry_delay * int k)])
                                  [1..<nat max_retries])
                       @ [Sleep_uniform 2 5, Http_get url])
            \<and> get_urls (snd (fetch_page net url max_retries w))
                = get_urls w @ replicate (nat max_retries) url
            \<and> cooldowns (snd (fetch_page net url max_retries w))
                = cooldowns w @ map (\<lambda>k. retry_delay * int k) [1..<nat max_retries]
            \<and> sorted_wrt (<) (map (\<lambda>k. retry_delay * int k) [1..<nat max_retries]))"
proof (intro conjI impI)
  assume h: "\<forall>k. \<exists>s b. net url k = Response s b \<and> s \<noteq> 200"
  then have r: "\<exists>s b. net url k = Response s b \<and>
      (contains (lower b) ''captcha'' \<or> contains (lower b) ''detected unusual traffic'' \<or> s \<noteq> 200)" for k
    by blast
  have eq: "fetch_page net url max_retries w =
        (None, w @ concat (replicate (nat max_retries)
                 [Sleep_uniform 2 5, Http_get url, Sleep_fixed retry_delay]))"
    unfolding fetch_page_def using fetch_loop_all_retry[of net url max_retries 0 w, OF r] by simp
  show "fst (fetch_page net url max_retries w) = None" by (simp add: eq)
  show "get_urls (snd (fetch_page net url max_retries w)) = get_urls w @ replicate (nat max_retries) url"
    by (simp add: eq get_urls_append get_urls_attempts)
next
  assume h: "\<forall>k. net url k = RequestException"
  have lt: "int 0 < max_retries" using assms by simp
  have len: "Suc (nat max_retries - Suc 0) = nat max_retries" using assms by simp
  show eq: "fetch_page net url max_retries w =
              (None, w @ concat (map (\<lambda>k. [Sleep_uniform 2 5, Http_get url,
                                            Sleep_fixed (retry_delay * int k)])
                                  [1..<nat max_retries])
                       @ [Sleep_uniform 2 5, Http_get url])"
    unfolding fetch_page_def using fetch_loop_all_error[of net url 0 max_retries w, OF _ lt] h by simp
  show "get_urls (snd (fetch_page net url max_retries w)) = get_urls w @ replicate (nat max_retries) url"
    using len by (simp add: eq get_urls_append get_urls_backoff replicate_append_same
        replicate_Suc[symmetric] del: replicate_Suc)
  show "cooldowns (snd (fetch_page net url max_retries w))
                = cooldowns w @ map (\<lambda>k. retry_delay * int k) [1..<nat max_retries]"
    by (simp add: eq cooldowns_append cooldowns_backoff)
  show "sorted_wrt (<) (map (\<lambda>k. retry_delay * int k) [1..<nat max_retries])"
    by (rule backoff_increasing)
qed

theorem fetch_page_exhausts_retries_witness:
  "(1::int) \<le> 3
   \<and> fst (fetch_page (always (Response 503 ''busy'')) base_url 3 []) = None
   \<and> get_urls (snd (fetch_page (always (Response 503 ''busy'')) base_url 3 []))
       = [base_url, base_url, base_url]
   \<and> fetch_page (always RequestException) base_url 3 [] =
       (None, [Sleep_uniform 2 5, Http_get base_url, Sleep_fixed 30,
               Sleep_uniform 2 5, Http_get base_url, Sleep_fixed 60,
               Sleep_uniform 2 5, Http_get base_url])
   \<and> cooldowns (snd (fetch_page (always RequestException) base_url 3 [])) = [30, 60]"
proof -
  have three: "(1::int) \<le> 3" by simp
  have a: "\<forall>k. \<exists>s b. always (Response 503 ''busy'') base_url k = Response s b \<and> s \<noteq> 200"
    by (simp add: always_def)
  have b: "\<forall>k. always RequestException base_url k = RequestException"
    by (simp add: always_def)
  have A: "fst (fetch_page (always (Response 503 ''busy'')) base_url 3 []) = None \<and>
           get_urls (snd (fetch_page (always (Response 503 ''busy'')) base_url 3 []))
             = get_urls [] @ replicate (nat 3) base_url"
    using fetch_page_exhausts_retries[OF three, of "always (Response 503 ''busy'')" base_url "[]"] a
    by blast
  have B: "fetch_page (always RequestException) base_url 3 [] =
              (None, [] @ concat (map (\<lambda>k. [Sleep_uniform 2 5, Http_get base_url,
                                            Sleep_fixed (retry_delay * int k)])
                                  [1..<nat 3])
                       @ [Sleep_uniform 2 5, Http_get base_url])
           \<and> cooldowns (snd (fetch_page (always RequestException) base_url 3 []))
                = cooldowns [] @ map (\<lambda>k. retry_delay * int k) [1..<nat 3]"
    using fetch_page_exhausts_retries[OF three, of "always RequestException" base_url "[]"] b
    by blast
  have u: "[1..<nat 3] = [1, 2]" by (simp add: eval_nat_numeral upt_rec)
  have r: "replicate (nat 3) base_url = [base_url, base_url, base_url]"
    by (simp add: eval_nat_numeral)
  show ?thesis
    using A B unfolding u r by (simp add: retry_delay_def)
qed

subsection \<open>\<^verbatim>\<open>fetch_page\<close>: block detection\<close>

text \<open>
  The block test looks for \<^verbatim>\<open>captcha\<close> and for \<^verbatim>\<open>detected unusual traffic\<close>.
  A page with status 200 whose body has the words \<^verbatim>\<open>unusual traffic\<close> without
  \<^verbatim>\<open>detected\<close> before them is returned as a success by the first request.
\<close>

theorem unusual_traffic_counterexample:
  "contains (lower ''Unusual traffic from your network'') ''unusual traffic''
   \<and> fetch_page (always (Response 200 ''Unusual traffic from your network'')) base_url 3 []
       = (Some ''Unusual traffic from your network'', [Sleep_uniform 2 5, Http_get base_url])"
  by code_simp

text \<open>
  Claim C3, amended. When the body of every response contains
  \<^verbatim>\<open>detected unusual traffic\<close> (in any letter case), every attempt is taken as
  blocked: \<^verbatim>\<open>fetch_page\<close> returns \<^verbatim>\<open>None\<close> after \<^verbatim>\<open>max_retries\<close>
  requests, and each request is followed by the fixed cooldown \<^verbatim>\<open>retry_delay\<close>.
\<close>

theorem fetch_page_blocked:
  assumes "\<forall>k. \<exists>s b. net url k = Response s b \<and> contains (lower b) ''detected unusual traffic''"
  shows "fetch_page net url max_retries w =
           (None, w @ concat (replicate (nat max_retries)
                               [Sleep_uniform 2 5, Http_get url, Sleep_fixed retry_delay]))"
proof -
  have r: "\<exists>s b. net url k = Response s b \<and>
      (contains (lower b) ''captcha'' \<or> contains (lower b) ''detected unusual traffic'' \<or> s \<noteq> 200)" for k
    using assms by blast
  show ?thesis
    unfolding fetch_page_def using fetch_loop_all_retry[of net url max_retries 0 w, OF r] by simp
qed

theorem fetch_page_blocked_witness:
  "(\<forall>k. \<exists>s b. always (Response 200 ''We have Detected Unusual Traffic'') base_url k = Response s b
             \<and> contains (lower b) ''detected unusual traffic'')
   \<and> fetch_page (always (Response 200 ''We have Detected Unusual Traffic'')) base_url 2 []
       = (None, [Sleep_uniform 2 5, Http_get base_url, Sleep_fixed 30,
                 Sleep_uniform 2 5, Http_get base_url, Sleep_fixed 30])"
proof -
  have c: "contains (lower ''We have Detected Unusual Traffic'') ''detected unusual traffic''"
    by code_simp
  have a: "\<forall>k. \<exists>s b. always (Response 200 ''We have Detected Unusual Traffic'') base_url k = Response s b
             \<and> contains (lower b) ''detected unusual traffic''"
    using c by (simp add: always_def)
  have r: "replicate (nat 2) x = [x, x]" for x :: "event list"
    by (simp add: eval_nat_numeral)
  show ?thesis
    using a fetch_page_blocked[of "always (Response 200 ''We have Detected Unusual Traffic'')" base_url 2 "[]", OF a]
    unfolding r by (simp add: retry_delay_def)
qed

subsection \<open>\<^verbatim>\<open>parse_listing\<close>: what each field can be\<close>

lemma parse_listing_Some:
  assumes "parse_listing listing = Some r"
  shows "is_tag listing"
    and "title r = first_text title_selectors listing"
    and "price r = first_text price_selectors listing"
    and "location r = first_text loc_selectors listing"
    and "date_posted r = first_text date_selectors listing"
    and "link r = extract_link listing"
    and "image_url r = extract_image listing"
  using assms by (cases listing; auto simp: Let_def is_tag_def)+

lemma field_value_first_text:
  "parse_listing listing = Some r \<Longrightarrow> field_value f r = first_text (cascade f) listing"
  by (cases f) (simp_all add: parse_listing_Some)

lemma parse_listing_tag: "is_tag listing \<Longrightarrow> \<exists>r. parse_listing listing = Some r"
  by (cases listing) (simp_all add: is_tag_def Let_def)

lemma parse_listing_string: "\<not> is_tag listing \<Longrightarrow> parse_listing listing = None"
  by (cases listing) (simp_all add: is_tag_def)

lemma first_text_cases:
  "first_text sels listing = ''N/A'' \<or>
   (\<exists>s\<in>set sels. \<exists>e. select_one s listing = Some e \<and> first_text sels listing = strip (get_text e))"
  by (induction sels) (auto split: option.splits)

lemma first_text_no_match:
  "\<forall>s\<in>set sels. select_one s listing = None \<Longrightarrow> first_text sels listing = ''N/A''"
  by (induction sels) simp_all



lemma extract_link_cases:
  "extract_link listing = ''N/A'' \<or>
   (\<exists>a h. find_tag ''a'' listing = Some a \<and> attr a ''href'' = Some h \<and>
      extract_link listing = (if startswith h ''http'' then h else ''https://www.olx.in'' @ h))"
  by (auto simp: extract_link_def split: option.splits)

lemma startswith_nonempty: "startswith h (c # p) \<Longrightarrow> h \<noteq> []"
  by (cases h) simp_all

lemma extract_link_nonempty: "extract_link listing \<noteq> []"
  by (auto simp: extract_link_def split: option.splits dest: startswith_nonempty)

lemma first_attr_cases:
  "first_attr names img = ''N/A'' \<or> (\<exists>a\<in>set names. attr img a = Some (first_attr names img))"
  by (induction names) (auto split: option.splits)

lemma extract_image_cases:
  "extract_image listing = ''N/A'' \<or>
   (\<exists>img. find_tag ''img'' listing = Some img \<and>
      (\<exists>a\<in>set [''src'', ''data-src'', ''srcset'']. attr img a = Some (extract_image listing)))"
  using first_attr_cases[of "[''src'', ''data-src'', ''srcset'']"]
  by (auto simp: extract_image_def split: option.splits)

text \<open>
  A selector that matches a tag without text gives the empty string, and so does an
  image whose \<^verbatim>\<open>src\<close> is empty: neither is the sentinel nor a non-empty string.
\<close>

theorem empty_field_counterexample:
  "parse_listing (Element ''li'' [(''class'', ''EIR5N'')]
                   [Element ''span'' [(''class'', ''_2Ks63'')] [],
                    Element ''img'' [(''src'', '''')] []])
   = Some \<lparr>title = ''N/A'', price = '''', location = ''N/A'', date_posted = ''N/A'',
            link = ''N/A'', image_url = ''''\<rparr>
   \<and> '''' \<noteq> ''N/A''"
  by code_simp

text \<open>
  Claim C1, amended. \<^verbatim>\<open>parse_listing\<close> never raises: it returns a record for every
  tag and \<^verbatim>\<open>None\<close> for a node that is not a tag. A record has all six fields.
  Each text field is the sentinel \<^verbatim>\<open>N/A\<close> or the stripped text of a node matched by
  one of the field's selectors (that text may be empty). The link is the sentinel or the
  \<^verbatim>\<open>href\<close> of the first anchor, with the origin in front unless it starts with
  \<^verbatim>\<open>http\<close>, and is never empty. The image URL is the sentinel or the value of
  \<^verbatim>\<open>src\<close>, \<^verbatim>\<open>data-src\<close> or \<^verbatim>\<open>srcset\<close> of the first image (that value may
  be empty). A tag with nothing below it gives the record of six sentinels.
\<close>

theorem parse_listing_fields:
  "(is_tag listing \<longrightarrow> parse_listing listing \<noteq> None)
   \<and> (\<not> is_tag listing \<longrightarrow> parse_listing listing = None)
   \<and> (\<forall>r. parse_listing listing = Some r \<longrightarrow>
        (\<forall>f. field_value f r = ''N/A'' \<or>
              (\<exists>s\<in>set (cascade f). \<exists>e. select_one s listing = Some e \<and>
                 field_value f r = strip (get_text e)))
        \<and> (link r = ''N/A'' \<or>
             (\<exists>a h. find_tag ''a'' listing = Some a \<and> attr a ''href'' = Some h \<and>
                link r = (if startswith h ''http'' then h else ''https://www.olx.in'' @ h)))
        \<and> link r \<noteq> []
        \<and> (image_url r = ''N/A'' \<or>
             (\<exists>img. find_tag ''img'' listing = Some img \<and>
                (\<exists>a\<in>set [''src'', ''data-src'', ''srcset'']. attr img a = Some (image_url r))))
        \<and> (descendants listing = [] \<longrightarrow>
             r = \<lparr>title = ''N/A'', price = ''N/A'', location = ''N/A'', date_posted = ''N/A'',
                  link = ''N/A'', image_url = ''N/A''\<rparr>))"
proof (intro conjI impI allI)
  show "parse_listing listing \<noteq> None" if "is_tag listing"
    using parse_listing_tag[OF that] by auto
  show "parse_listing listing = None" if "\<not> is_tag listing"
    using that by (rule parse_listing_string)
next
  fix r f assume r: "parse_listing listing = Some r"
  show "field_value f r = ''N/A'' \<or>
              (\<exists>s\<in>set (cascade f). \<exists>e. select_one s listing = Some e \<and>
                 field_value f r = strip (get_text e))"
    unfolding field_value_first_text[OF r] by (rule first_text_cases)
next
  fix r assume r: "parse_listing listing = Some r"
  show "link r = ''N/A'' \<or>
             (\<exists>a h. find_tag ''a'' listing = Some a \<and> attr a ''href'' = Some h \<and>
                link r = (if startswith h ''http'' then h else ''https://www.olx.in'' @ h))"
    unfolding parse_listing_Some(6)[OF r] by (rule extract_link_cases)
  show "link r \<noteq> []"
    unfolding parse_listing_Some(6)[OF r] by (rule extract_link_nonempty)
  show "image_url r = ''N/A'' \<or>
             (\<exists>img. find_tag ''img'' listing = Some img \<and>
                (\<exists>a\<in>set [''src'', ''data-src'', ''srcset'']. attr img a = Some (image_url r)))"
    unfolding parse_listing_Some(7)[OF r] by (rule extract_image_cases)
  show "r = \<lparr>title = ''N/A'', price = ''N/A'', location = ''N/A'', date_posted = ''N/A'',
                  link = ''N/A'', image_url = ''N/A''\<rparr>" if d: "descendants listing = []"
  proof -
    have ft: "first_text sels listing = ''N/A''" for sels
      by (rule first_text_no_match) (simp add: select_one_def d)
    have "extract_link listing = ''N/A''" "extract_image listing = ''N/A''"
      by (simp_all add: extract_link_def extract_image_def find_tag_def d)
    then show ?thesis
      using parse_listing_Some[OF r] ft by simp
  qed
qed

theorem parse_listing_fields_witness:
  "is_tag sample_listing \<and> parse_listing sample_listing = Some sample_record
   \<and> (field_value Price sample_record = ''N/A'' \<or>
        (\<exists>s\<in>set (cascade Price). \<exists>e. select_one s sample_listing = Some e \<and>
            field_value Price sample_record = strip (get_text e)))
   \<and> link sample_record \<noteq> []
   \<and> \<not> is_tag (Text ''Car cover'') \<and> parse_listing (Text ''Car cover'') = None"
proof -
  have t: "is_tag sample_listing" by code_simp
  have p: "parse_listing sample_listing = Some sample_record" by code_simp
  have n: "\<not> is_tag (Text ''Car cover'')" by (simp add: is_tag_def)
  show ?thesis
    using parse_listing_fields[of sample_listing] parse_listing_fields[of "Text ''Car cover''"] t p n
    by blast
qed

subsection \<open>\<^verbatim>\<open>parse_listing\<close>: the order of the selectors\<close>



subsection \<open>\<^verbatim>\<open>parse_listing\<close>: the link\<close>

text \<open>
  Claim C6. The link is taken from the \<^verbatim>\<open>href\<close> of the first anchor below the
  listing: a value that does not start with \<^verbatim>\<open>http\<close> gets the origin
  \<^verbatim>\<open>https://www.olx.in\<close> in front (so \<^verbatim>\<open>/item/123\<close> becomes
  \<^verbatim>\<open>https://www.olx.in/item/123\<close>), a value that starts with \<^verbatim>\<open>http\<close> is kept
  as it is, and a listing without an anchor gets the sentinel.
\<close>

theorem link_extraction:
  assumes "parse_listing listing = Some r"
  shows "(find_tag ''a'' listing = None \<longrightarrow> link r = ''N/A'')
       \<and> (\<forall>link_elem href.
             find_tag ''a'' listing = Some link_elem \<and> attr link_elem ''href'' = Some href \<longrightarrow>
               (\<not> startswith href ''http'' \<longrightarrow> link r = ''https://www.olx.in'' @ href)
             \<and> (startswith href ''http'' \<longrightarrow> link r = href)
             \<and> (href = ''/item/123'' \<longrightarrow> link r = ''https://www.olx.in/item/123''))"
  unfolding parse_listing_Some(6)[OF assms]
  by (auto simp: extract_link_def)

theorem link_extraction_witness:
  "parse_listing sample_listing = Some sample_record
   \<and> find_tag ''a'' sample_listing = Some (Element ''a'' [(''href'', ''/item/123'')] [Text ''Car cover''])
   \<and> attr (Element ''a'' [(''href'', ''/item/123'')] [Text ''Car cover'']) ''href'' = Some ''/item/123''
   \<and> \<not> startswith ''/item/123'' ''http''
   \<and> link sample_record = ''https://www.olx.in/item/123''
   \<and> find_tag ''a'' absolute_link = Some (Element ''a'' [(''href'', ''https://www.olx.in/item/9'')] [])
   \<and> startswith ''https://www.olx.in/item/9'' ''http''
   \<and> link (the (parse_listing absolute_link)) = ''https://www.olx.in/item/9''
   \<and> find_tag ''a'' no_anchor = None
   \<and> link (the (parse_listing no_anchor)) = ''N/A''"
proof -
  have p1: "parse_listing sample_listing = Some sample_record" by code_simp
  have f1: "find_tag ''a'' sample_listing = Some (Element ''a'' [(''href'', ''/item/123'')] [Text ''Car cover''])"
    by code_simp
  have a1: "attr (Element ''a'' [(''href'', ''/item/123'')] [Text ''Car cover'']) ''href'' = Some ''/item/123''"
    by code_simp
  have s1: "\<not> startswith ''/item/123'' ''http''" by simp
  have p2: "parse_listing absolute_link = Some (the (parse_listing absolute_link))" by code_simp
  have f2: "find_tag ''a'' absolute_link = Some (Element ''a'' [(''href'', ''https://www.olx.in/item/9'')] [])"
    by code_simp
  have a2: "attr (Element ''a'' [(''href'', ''https://www.olx.in/item/9'')] []) ''href'' = Some ''https://www.olx.in/item/9''"
    by code_simp
  have s2: "startswith ''https://www.olx.in/item/9'' ''http''" by simp
  have p3: "parse_listing no_anchor = Some (the (parse_listing no_anchor))" by code_simp
  have f3: "find_tag ''a'' no_anchor = None" by code_simp
  show ?thesis
    using link_extraction[OF p1] link_extraction[OF p2] link_extraction[OF p3]
      p1 f1 a1 s1 f2 a2 s2 f3
    by blast
qed

subsection \<open>\<^verbatim>\<open>find_listings\<close>\<close>


lemma find_listings_no_content:
  "find_listings parser None = []" "find_listings parser (Some []) = []"
  by (simp_all add: find_listings_def)

text \<open>
  Claim C9. Called with \<^verbatim>\<open>None\<close> or with the empty string,
  \<^verbatim>\<open>find_listings\<close> returns the empty list, whatever the parser would do: the page
  is not parsed and no selector is tried.
\<close>

theorem find_listings_absent_content:
  "find_listings parser None = [] \<and> find_listings parser (Some '''') = []"
  by (simp add: find_listings_def)

theorem find_listings_absent_content_witness:
  "find_listings (fixed_page two_listings) None = []
   \<and> find_listings (fixed_page two_listings) (Some '''') = []
   \<and> find_listings (fixed_page two_listings) (Some ''<html>'') = [sample_listing, both_prices]"
proof -
  have "find_listings (fixed_page two_listings) (Some ''<html>'') = [sample_listing, both_prices]"
    by code_simp
  then show ?thesis
    using find_listings_absent_content[of "fixed_page two_listings"] by simp
qed



subsection \<open>\<^verbatim>\<open>scrape_search_results\<close>: the page loop\<close>

lemma fetch_page_world:
  "fetch_page net url m w = (fst (fetch_page net url m []), w @ snd (fetch_page net url m []))"
  unfolding fetch_page_def by (rule fetch_loop_world)

lemma fetch_page_page:
  "fetch_page net (page_url p) 3 w = (page_body net p, w @ page_events net p)"
  unfolding page_body_def page_events_def by (rule fetch_page_world)

lemma scrape_loop_stop:
  "\<not> p \<le> n \<Longrightarrow> scrape_loop net parser n p acc w = (acc, w)"
  by (subst scrape_loop.simps) simp

lemma scrape_loop_step:
  assumes "p \<le> n"
  shows "scrape_loop net parser n p acc w =
           scrape_loop net parser n (p + 1)
             (acc @ page_results (find_listings parser (page_body net p)))
             (w @ page_events net p @
                (if page_fetched net p \<and> p < n then [Sleep_uniform 10 20] else []))"
proof (cases "page_fetched net p")
  case True
  then show ?thesis
    using assms
    by (subst scrape_loop.simps) (auto simp add: fetch_page_page page_fetched_def Let_def)
next
  case False
  then have "find_listings parser (page_body net p) = []"
    by (auto simp: page_fetched_def find_listings_no_content)
  then show ?thesis
    using assms False
    by (subst scrape_loop.simps) (auto simp add: fetch_page_page page_fetched_def)
qed

lemma scrape_loop_char:
  "scrape_loop net parser n p acc w =
     (acc @ concat (map (\<lambda>q. page_results (find_listings parser (page_body net q))) [p..n]),
      w @ concat (map (\<lambda>q. page_events net q @
                        (if page_fetched net q \<and> q < n then [Sleep_uniform 10 20] else []))
                   [p..n]))"
proof (induction "nat (n + 1 - p)" arbitrary: p acc w)
  case 0
  then have "\<not> p \<le> n" by simp
  then show ?case by (simp add: scrape_loop_stop)
next
  case (Suc k)
  then have le: "p \<le> n" and k: "k = nat (n + 1 - (p + 1))" by auto
  have up: "[p..n] = p # [p + 1..n]" using le by (simp add: upto_rec1)
  show ?case
    unfolding scrape_loop_step[OF le] Suc.hyps(1)[OF k] up by simp
qed

lemma fetch_loop_shape:
  "\<exists>ds. length ds \<le> nat (m - int r) \<and> (int r < m \<longrightarrow> ds \<noteq> []) \<and>
        snd (fetch_loop net url m r w) =
          w @ concat (map (\<lambda>d. [Sleep_uniform 2 5, Http_get url] @ map Sleep_fixed d) ds)"
proof (induction "nat (m - int r)" arbitrary: r w)
  case 0
  then have "\<not> int r < m" by simp
  then have "snd (fetch_loop net url m r w) = w" by (simp add: fetch_loop_stop)
  then show ?case using 0 by (intro exI[of _ "[]"]) simp
next
  case (Suc n)
  then have lt: "int r < m" and n: "n = nat (m - int (Suc r))" by auto
  have len: "Suc (nat (m - int (Suc r))) \<le> nat (m - int r)" using lt by simp
  have pos: "Suc 0 \<le> nat (m - int r)" using lt by simp
  have one: "\<exists>ds. length ds \<le> nat (m - int r) \<and> (int r < m \<longrightarrow> ds \<noteq> []) \<and>
        snd (fetch_loop net url m r w) =
          w @ concat (map (\<lambda>d. [Sleep_uniform 2 5, Http_get url] @ map Sleep_fixed d) ds)"
    if a: "fetch_loop net url m r w = (x, w @ [Sleep_uniform 2 5, Http_get url])" for x
  proof (intro exI[of _ "[[]]"] conjI impI)
    show "length [[]::int list] \<le> nat (m - int r)" using pos by simp
    show "[[]::int list] \<noteq> []" by simp
    show "snd (fetch_loop net url m r w) =
          w @ concat (map (\<lambda>d. [Sleep_uniform 2 5, Http_get url] @ map Sleep_fixed d) [[]])"
      unfolding a by simp
  qed
  have more: "\<exists>ds. length ds \<le> nat (m - int r) \<and> (int r < m \<longrightarrow> ds \<noteq> []) \<and>
        snd (fetch_loop net url m r w) =
          w @ concat (map (\<lambda>d. [Sleep_uniform 2 5, Http_get url] @ map Sleep_fixed d) ds)"
    if a: "fetch_loop net url m r w =
             fetch_loop net url m (Suc r) (w @ [Sleep_uniform 2 5, Http_get url, Sleep_fixed x])" for x
  proof -
    obtain ds where ds: "length ds \<le> nat (m - int (Suc r))"
      "snd (fetch_loop net url m (Suc r) (w @ [Sleep_uniform 2 5, Http_get url, Sleep_fixed x])) =
          (w @ [Sleep_uniform 2 5, Http_get url, Sleep_fixed x])
            @ concat (map (\<lambda>d. [Sleep_uniform 2 5, Http_get url] @ map Sleep_fixed d) ds)"
      using Suc.hyps(1)[OF n] by blast
    show ?thesis
    proof (intro exI[of _ "[x] # ds"] conjI impI)
      show "length ([x] # ds) \<le> nat (m - int r)" using ds(1) len by simp
      show "[x] # ds \<noteq> []" by simp
      show "snd (fetch_loop net url m r w) =
          w @ concat (map (\<lambda>d. [Sleep_uniform 2 5, Http_get url] @ map Sleep_fixed d) ([x] # ds))"
        unfolding a ds(2) by simp
    qed
  qed
  show ?case
  proof (cases "net url r")
    case RequestException
    show ?thesis
    proof (cases "int (Suc r) < m")
      case True
      show ?thesis
      proof (rule more[of "retry_delay * int (Suc r)"])
        show "fetch_loop net url m r w = fetch_loop net url m (Suc r)
               (w @ [Sleep_uniform 2 5, Http_get url, Sleep_fixed (retry_delay * int (Suc r))])"
          using True fetch_loop_error_step[of r m net url w, OF lt RequestException] by simp
      qed
    next
      case False
      show ?thesis
      proof (rule one[of None])
        show "fetch_loop net url m r w = (None, w @ [Sleep_uniform 2 5, Http_get url])"
          using False fetch_loop_error_step[of r m net url w, OF lt RequestException] by simp
      qed
    qed
  next
    case (Response s b)
    show ?thesis
    proof (cases "contains (lower b) ''captcha'' \<or> contains (lower b) ''detected unusual traffic'' \<or> s \<noteq> 200")
      case True
      show ?thesis
        by (rule more[of retry_delay]) (rule fetch_loop_retry_step[of r m net url s b w, OF lt Response True])
    next
      case False
      show ?thesis
      proof (rule one[of "Some b"])
        show "fetch_loop net url m r w = (Some b, w @ [Sleep_uniform 2 5, Http_get url])"
          using fetch_loop_success[of r m net url b w] lt Response False by simp
      qed
    qed
  qed
qed

lemma page_events_shape:
  "\<exists>ds. length ds \<le> 3 \<and> ds \<noteq> [] \<and>
        page_events net p =
          concat (map (\<lambda>d. [Sleep_uniform 2 5, Http_get (page_url p)] @ map Sleep_fixed d) ds)"
  using fetch_loop_shape[of 3 0 net "page_url p" "[]"]
  by (simp add: page_events_def fetch_page_def)

lemma get_urls_fixed: "get_urls (map Sleep_fixed d) = []"
  by (induction d) simp_all

lemma get_urls_shape:
  "get_urls (concat (map (\<lambda>d. [Sleep_uniform lo hi, Http_get url] @ map Sleep_fixed d) ds))
     = replicate (length ds) url"
  by (induction ds) (simp_all add: get_urls_append get_urls_fixed)

lemma uniform_not_fixed: "Sleep_uniform lo hi \<notin> set (map Sleep_fixed d)"
  by (induction d) simp_all

lemma uniform_shape:
  "Sleep_uniform lo hi \<in> set (concat (map (\<lambda>d. [Sleep_uniform a b, Http_get url] @ map Sleep_fixed d) ds))
     \<Longrightarrow> lo = a \<and> hi = b"
proof (induction ds)
  case Nil
  then show ?case by simp
next
  case (Cons d ds)
  have "Sleep_uniform lo hi \<notin> set (map Sleep_fixed d)" by (rule uniform_not_fixed)
  then have "(lo = a \<and> hi = b) \<or>
      Sleep_uniform lo hi \<in> set (concat (map (\<lambda>d. [Sleep_uniform a b, Http_get url] @ map Sleep_fixed d) ds))"
    using Cons.prems by (simp del: set_map)
  then show ?case using Cons.IH by blast
qed

lemma page_attempts:
  "1 \<le> attempts net p \<and> attempts net p \<le> 3 \<and>
   get_urls (page_events net p) = replicate (attempts net p) (page_url p)"
proof -
  obtain ds where ds: "length ds \<le> 3" "ds \<noteq> []"
    "page_events net p =
       concat (map (\<lambda>d. [Sleep_uniform 2 5, Http_get (page_url p)] @ map Sleep_fixed d) ds)"
    using page_events_shape by blast
  have "get_urls (page_events net p) = replicate (length ds) (page_url p)"
    unfolding ds(3) by (rule get_urls_shape)
  moreover have "1 \<le> length ds" using ds(2) by (cases ds) simp_all
  ultimately show ?thesis using ds(1) by (simp add: attempts_def)
qed

lemma page_uniform:
  "Sleep_uniform lo hi \<in> set (page_events net p) \<Longrightarrow> lo = 2 \<and> hi = 5"
proof -
  assume a: "Sleep_uniform lo hi \<in> set (page_events net p)"
  obtain ds where ds:
    "page_events net p =
       concat (map (\<lambda>d. [Sleep_uniform 2 5, Http_get (page_url p)] @ map Sleep_fixed d) ds)"
    using page_events_shape by blast
  show ?thesis using a unfolding ds by (rule uniform_shape)
qed

lemma get_urls_pages:
  "get_urls (concat (map (\<lambda>q. page_events net q @
                        (if c q then [Sleep_uniform 10 20] else [])) ps))
     = concat (map (\<lambda>q. replicate (attempts net q) (page_url q)) ps)"
  by (induction ps) (simp_all add: get_urls_append page_attempts[THEN conjunct2, THEN conjunct2])

lemma page_not_fetched:
  "\<not> page_fetched net p \<Longrightarrow> page_results (find_listings parser (page_body net p)) = []"
  by (auto simp: page_fetched_def find_listings_no_content)

text \<open>
  Claim C7. \<^verbatim>\<open>scrape_search_results\<close> goes through the pages
  \<open>1, \<dots>, max_pages\<close> in order: the requests of a run are, page after page,
  between one and three requests to that page's URL, which is the base URL for page 1
  and the base URL followed by \<^verbatim>\<open>?page=\<close> and the page number for every other
  page. The result is the concatenation, in page order, of the records extracted from
  each page; a page whose fetch gives no content adds nothing and does not stop the
  run.
\<close>

theorem scrape_search_results_pages:
  "fst (scrape_search_results net parser max_pages w)
     = concat (map (\<lambda>p. page_results (find_listings parser (page_body net p))) [1..max_pages])
   \<and> get_urls (snd (scrape_search_results net parser max_pages w))
     = get_urls w @ concat (map (\<lambda>p. replicate (attempts net p) (page_url p)) [1..max_pages])
   \<and> (\<forall>p. 1 \<le> attempts net p \<and> attempts net p \<le> 3)
   \<and> page_url 1 = base_url
   \<and> (\<forall>p. p \<noteq> 1 \<longrightarrow> page_url p = base_url @ ''?page='' @ str_int p)
   \<and> (\<forall>p. \<not> page_fetched net p \<longrightarrow>
          page_results (find_listings parser (page_body net p)) = [])"
proof (intro conjI allI impI)
  show "fst (scrape_search_results net parser max_pages w)
     = concat (map (\<lambda>p. page_results (find_listings parser (page_body net p))) [1..max_pages])"
    by (simp add: scrape_search_results_def scrape_loop_char)
  show "get_urls (snd (scrape_search_results net parser max_pages w))
     = get_urls w @ concat (map (\<lambda>p. replicate (attempts net p) (page_url p)) [1..max_pages])"
    by (simp add: scrape_search_results_def scrape_loop_char get_urls_append get_urls_pages)
  show "1 \<le> attempts net p" for p using page_attempts[of net p] by simp
  show "attempts net p \<le> 3" for p using page_attempts[of net p] by simp
  show "page_url 1 = base_url" by (simp add: page_url_def)
  show "page_url p = base_url @ ''?page='' @ str_int p" if "p \<noteq> 1" for p
    using that by (simp add: page_url_def)
  show "page_results (find_listings parser (page_body net p)) = []"
    if "\<not> page_fetched net p" for p
    using that by (rule page_not_fetched)
qed

theorem scrape_search_results_pages_witness:
  "\<not> page_fetched first_page_down 1
   \<and> page_results (find_listings (fixed_page two_listings) (page_body first_page_down 1)) = []
   \<and> fst (scrape_search_results first_page_down (fixed_page two_listings) 2 [])
       = [sample_record, both_record]
   \<and> get_urls (snd (scrape_search_results first_page_down (fixed_page two_listings) 2 []))
       = [base_url, base_url, base_url, base_url @ ''?page=2'']
   \<and> (2::int) \<noteq> 1 \<and> page_url 2 = base_url @ ''?page=2''"
proof -
  have f1: "\<not> page_fetched first_page_down 1" by code_simp
  have r2: "page_results (find_listings (fixed_page two_listings) (page_body first_page_down 2))
              = [sample_record, both_record]" by code_simp
  have a1: "attempts first_page_down 1 = 3" by code_simp
  have a2: "attempts first_page_down 2 = 1" by code_simp
  have s2: "str_int 2 = ''2''" by code_simp
  have u: "[1..2::int] = [1, 2]" by (simp add: upto_rec1)
  have n: "(2::int) \<noteq> 1" by simp
  note t = scrape_search_results_pages[of first_page_down "fixed_page two_listings" 2 "[]"]
  have p1: "page_results (find_listings (fixed_page two_listings) (page_body first_page_down 1)) = []"
    using t f1 by blast
  have p2: "page_url 2 = base_url @ ''?page=2''"
    using t n s2 by simp
  have p0: "page_url 1 = base_url" using t by blast
  have e1: "fst (scrape_search_results first_page_down (fixed_page two_listings) 2 [])
       = [sample_record, both_record]"
    using t unfolding u by (simp add: p1 r2)
  have e2: "get_urls (snd (scrape_search_results first_page_down (fixed_page two_listings) 2 []))
       = [base_url, base_url, base_url, base_url @ ''?page=2'']"
    using t unfolding u by (simp add: a1 a2 p0 p2 eval_nat_numeral)
  show ?thesis using f1 p1 e1 e2 n p2 by blast
qed

subsection \<open>\<^verbatim>\<open>scrape_search_results\<close>: the delay between pages\<close>

text \<open>
  When the fetch of a page fails, the loop goes to the next page with \<^verbatim>\<open>continue\<close>
  and the delay at the end of the loop body is not reached: with page 1 down and two
  pages asked for, the first request for page 2 follows the last cooldown of page 1
  with no delay of 10 to 20 seconds in between.
\<close>

theorem no_pacing_after_failed_page_counterexample:
  "snd (scrape_search_results first_page_down (fixed_page two_listings) 2 [])
     = [Sleep_uniform 2 5, Http_get base_url, Sleep_fixed 30,
        Sleep_uniform 2 5, Http_get base_url, Sleep_fixed 30,
        Sleep_uniform 2 5, Http_get base_url, Sleep_fixed 30,
        Sleep_uniform 2 5, Http_get (base_url @ ''?page=2'')]
   \<and> Sleep_uniform 10 20
         \<notin> set (snd (scrape_search_results first_page_down (fixed_page two_listings) 2 []))"
  by code_simp

text \<open>
  Claim C8, amended. The effects of a run are, page after page, those of the fetch of
  the page, followed by one sleep of \<^verbatim>\<open>random.uniform(10, 20)\<close> seconds exactly
  when the fetch returned a non-empty body and the page is not the last one. Every
  randomized sleep inside \<^verbatim>\<open>fetch_page\<close> is drawn from 2 to 5 seconds, and 5 is
  below 10.
\<close>

theorem pacing_between_pages:
  "snd (scrape_search_results net parser max_pages w)
     = w @ concat (map (\<lambda>p. page_events net p @
                         (if page_fetched net p \<and> p < max_pages
                          then [Sleep_uniform 10 20] else []))
                    [1..max_pages])
   \<and> (\<forall>p lo hi. Sleep_uniform lo hi \<in> set (page_events net p) \<longrightarrow> lo = 2 \<and> hi = 5 \<and> hi < 10)"
proof (intro conjI allI impI)
  show "snd (scrape_search_results net parser max_pages w)
     = w @ concat (map (\<lambda>p. page_events net p @
                         (if page_fetched net p \<and> p < max_pages
                          then [Sleep_uniform 10 20] else []))
                    [1..max_pages])"
    by (simp add: scrape_search_results_def scrape_loop_char)
next
  fix p lo hi assume a: "Sleep_uniform lo hi \<in> set (page_events net p)"
  show "lo = 2" "hi = 5" "hi < 10" using page_uniform[OF a] by simp_all
qed

theorem pacing_between_pages_witness:
  "page_fetched (always (Response 200 ''<html>'')) 1
   \<and> snd (scrape_search_results (always (Response 200 ''<html>'')) (fixed_page two_listings) 2 [])
       = [Sleep_uniform 2 5, Http_get base_url, Sleep_uniform 10 20,
          Sleep_uniform 2 5, Http_get (base_url @ ''?page=2'')]
   \<and> Sleep_uniform 2 5 \<in> set (page_events (always (Response 200 ''<html>'')) 1)
   \<and> (5::int) < 10"
proof -
  have f1: "page_fetched (always (Response 200 ''<html>'')) 1" by code_simp
  have f2: "page_fetched (always (Response 200 ''<html>'')) 2" by code_simp
  have e1: "page_events (always (Response 200 ''<html>'')) 1 = [Sleep_uniform 2 5, Http_get base_url]"
    by code_simp
  have e2: "page_events (always (Response 200 ''<html>'')) 2
              = [Sleep_uniform 2 5, Http_get (base_url @ ''?page=2'')]"
    by code_simp
  have u: "[1..2::int] = [1, 2]" by (simp add: upto_rec1)
  have m: "Sleep_uniform 2 5 \<in> set (page_events (always (Response 200 ''<html>'')) 1)"
    by (simp add: e1)
  note t = pacing_between_pages[of "always (Response 200 ''<html>'')" "fixed_page two_listings" 2 "[]"]
  have tr: "snd (scrape_search_results (always (Response 200 ''<html>'')) (fixed_page two_listings) 2 [])
       = [Sleep_uniform 2 5, Http_get base_url, Sleep_uniform 10 20,
          Sleep_uniform 2 5, Http_get (base_url @ ''?page=2'')]"
    using t unfolding u by (simp add: f1 f2 e1 e2)
  have "(5::int) < 10" using t m by blast
  then show ?thesis using f1 tr m by blast
qed

end
